theory Spec2Isabelle
  imports Main "HOL-Library.Word" "HOL-Library.Multiset"
begin

section \<open>The contract \<open>IotPaymentFhe\<close>: data model\<close>

text \<open>
  The Solidity contract keeps an owner, a provider registry, a pause flag, one cooldown
  shared by two per-caller clocks, an append-only payment ledger, an array of batches and
  a mapping of decryption contexts. Value types are modelled with their widths:
  \<open>address\<close> is 160 bits, \<open>uint256\<close> and \<open>bytes32\<close> are 256 bits, \<open>uint32\<close> is
  32 bits, \<open>bytes\<close> is a list of octets.
\<close>

type_synonym address = "160 word"
type_synonym uint256 = "256 word"
type_synonym uint32 = "32 word"
type_synonym bytes32 = "256 word"
type_synonym bytes = "8 word list"

text \<open>
  Modelled from the spec: the library \<open>@fhevm/solidity/lib/FHE.sol\<close> is imported by the
  contract and is not part of the sources. An \<open>euint32\<close> is an opaque encrypted 32-bit
  value; \<open>FHE.asEuint32\<close> encrypts a plaintext, \<open>FHE.add\<close> is homomorphic addition,
  taken as addition of 32-bit integers, and \<open>decrypt\<close> is what the oracle computes.
\<close>

datatype euint32 = Euint32 uint32

fun decrypt :: "euint32 \<Rightarrow> uint32" where
  "decrypt (Euint32 v) = v"

definition FHE_asEuint32 :: "uint32 \<Rightarrow> euint32" where
  "FHE_asEuint32 v = Euint32 v"

definition FHE_add :: "euint32 \<Rightarrow> euint32 \<Rightarrow> euint32" where
  "FHE_add a b = Euint32 (decrypt a + decrypt b)"

text \<open>
  The remaining collaborators are parameters of the model: the address of the contract
  (\<open>address(this)\<close>), \<open>keccak256\<close> over the ABI-encoded words, \<open>FHE.toBytes32\<close> (the
  canonical representation of a ciphertext) and \<open>FHE.checkSignatures\<close>.
\<close>

record fhe_env =
  this_address :: address
  keccak256 :: "uint256 list \<Rightarrow> bytes32"
  FHE_toBytes32 :: "euint32 \<Rightarrow> bytes32"
  FHE_checkSignatures :: "uint256 \<Rightarrow> bytes \<Rightarrow> bytes \<Rightarrow> bool"

record Payment =
  provider :: address
  encryptedAmount :: euint32
  submissionTimestamp :: uint256

text \<open>
  The source declares the field \<open>totalEncryptedAmount\<close> of \<open>Batch\<close> as \<open>uint256\<close> but
  only ever stores and reads ciphertexts (\<open>FHE.asEuint32(0)\<close>, \<open>FHE.add\<close>,
  \<open>FHE.toBytes32\<close>) in it; the model gives it the type of what it holds.
\<close>

record Batch =
  id_batch :: uint256
  totalEncryptedAmount :: euint32
  closed :: bool

record DecryptionContext =
  batchId :: uint256
  stateHash :: bytes32
  processed :: bool

datatype event =
    OwnershipTransferred address address
  | ProviderAdded address
  | ProviderRemoved address
  | PauseToggled bool
  | CooldownSecondsUpdated uint256 uint256
  | BatchOpened uint256
  | BatchClosed uint256 euint32
  | PaymentSubmitted uint256 uint256 address euint32
  | DecryptionRequested uint256 uint256 bytes32
  | DecryptionCompleted uint256 uint256 uint256

text \<open>
  The custom errors of the contract, and the reverts the compiler adds: \<open>Panic\<close> is
  the revert of checked arithmetic (Solidity 0.8), \<open>AbiDecodeRevert\<close> the revert of
  \<open>abi.decode\<close> on a payload that is too short, and \<open>EmptyRevert\<close> the revert
  without data of a generated array getter on an index out of range.
\<close>

datatype error =
    NotOwner
  | NotProvider
  | Paused
  | CooldownActive
  | BatchClosedOrNonexistent
  | InvalidBatch
  | ReplayAttempt
  | StateMismatch
  | InvalidProof
  | Panic
  | AbiDecodeRevert
  | EmptyRevert

text \<open>
  The mapping \<open>decryptionContexts\<close> is a partial map from request ids to the contexts
  that were stored; reading a key that was never written gives the zero context, as a
  Solidity mapping does (\<open>context_at\<close>). The emitted events are kept as a log, oldest
  first.
\<close>

record state =
  owner :: address
  providers :: "address \<Rightarrow> bool"
  paused :: bool
  cooldownSeconds :: uint256
  lastSubmissionTime :: "address \<Rightarrow> uint256"
  lastDecryptionRequestTime :: "address \<Rightarrow> uint256"
  payments :: "Payment list"
  batches :: "Batch list"
  decryptionContexts :: "uint256 \<rightharpoonup> DecryptionContext"
  events :: "event list"

definition zero_context :: DecryptionContext where
  "zero_context = \<lparr>batchId = 0, stateHash = 0, processed = False\<rparr>"

definition context_at :: "state \<Rightarrow> uint256 \<Rightarrow> DecryptionContext" where
  "context_at s requestId =
     (case decryptionContexts s requestId of None \<Rightarrow> zero_context | Some c \<Rightarrow> c)"

text \<open>The constructor: the deployer owns the contract and the cooldown is 60 seconds.\<close>

definition constructor :: "address \<Rightarrow> state" where
  "constructor deployer =
     \<lparr>owner = deployer, providers = (\<lambda>_. False), paused = False, cooldownSeconds = 60,
      lastSubmissionTime = (\<lambda>_. 0), lastDecryptionRequestTime = (\<lambda>_. 0),
      payments = [], batches = [], decryptionContexts = Map.empty, events = []\<rparr>"

section \<open>Operations\<close>

text \<open>
  Every external function returns \<open>Inl e\<close> when it reverts with \<open>e\<close> and \<open>Inr s'\<close>
  with the new state otherwise. A revert discards every write of the call, so the state
  after a reverted call is the state before it (\<open>exec\<close> below).
\<close>

definition checked_add :: "uint256 \<Rightarrow> uint256 \<Rightarrow> error + uint256" where
  "checked_add a b = (if unat a + unat b < 2 ^ 256 then Inr (a + b) else Inl Panic)"

subsection \<open>Administration (modifier \<open>onlyOwner\<close>)\<close>

definition transferOwnership :: "state \<Rightarrow> address \<Rightarrow> address \<Rightarrow> error + state" where
  "transferOwnership s sender newOwner =
     (if sender \<noteq> owner s then Inl NotOwner
      else Inr (s\<lparr>owner := newOwner,
                  events := events s @ [OwnershipTransferred (owner s) newOwner]\<rparr>))"

definition addProvider :: "state \<Rightarrow> address \<Rightarrow> address \<Rightarrow> error + state" where
  "addProvider s sender p =
     (if sender \<noteq> owner s then Inl NotOwner
      else Inr (s\<lparr>providers := (providers s)(p := True),
                  events := events s @ [ProviderAdded p]\<rparr>))"

definition removeProvider :: "state \<Rightarrow> address \<Rightarrow> address \<Rightarrow> error + state" where
  "removeProvider s sender p =
     (if sender \<noteq> owner s then Inl NotOwner
      else Inr (s\<lparr>providers := (providers s)(p := False),
                  events := events s @ [ProviderRemoved p]\<rparr>))"

definition setPaused :: "state \<Rightarrow> address \<Rightarrow> bool \<Rightarrow> error + state" where
  "setPaused s sender p =
     (if sender \<noteq> owner s then Inl NotOwner
      else Inr (s\<lparr>paused := p, events := events s @ [PauseToggled p]\<rparr>))"

definition setCooldownSeconds :: "state \<Rightarrow> address \<Rightarrow> uint256 \<Rightarrow> error + state" where
  "setCooldownSeconds s sender newCooldownSeconds =
     (if sender \<noteq> owner s then Inl NotOwner
      else Inr (s\<lparr>cooldownSeconds := newCooldownSeconds,
                  events := events s @
                    [CooldownSecondsUpdated (cooldownSeconds s) newCooldownSeconds]\<rparr>))"

subsection \<open>Batches and payments (modifiers \<open>onlyProvider\<close>, then \<open>whenNotPaused\<close>)\<close>

definition openBatch :: "state \<Rightarrow> address \<Rightarrow> uint256 \<Rightarrow> error + state" where
  "openBatch s sender now =
     (if \<not> providers s sender then Inl NotProvider
      else if paused s then Inl Paused
      else case checked_add (lastSubmissionTime s sender) (cooldownSeconds s) of
        Inl e \<Rightarrow> Inl e
      | Inr ready \<Rightarrow>
          if now < ready then Inl CooldownActive
          else
            Inr (s\<lparr>lastSubmissionTime := (lastSubmissionTime s)(sender := now),
                   batches := batches s @
                     [\<lparr>id_batch = of_nat (length (batches s)),
                       totalEncryptedAmount = FHE_asEuint32 0, closed = False\<rparr>],
                   events := events s @ [BatchOpened (of_nat (length (batches s)))]\<rparr>))"

definition submitPayment :: "state \<Rightarrow> address \<Rightarrow> uint256 \<Rightarrow> uint32 \<Rightarrow> error + state" where
  "submitPayment s sender now amount =
     (if \<not> providers s sender then Inl NotProvider
      else if paused s then Inl Paused
      else case checked_add (lastSubmissionTime s sender) (cooldownSeconds s) of
        Inl e \<Rightarrow> Inl e
      | Inr ready \<Rightarrow>
          if now < ready then Inl CooldownActive
          else if batches s = [] \<or> closed (last (batches s)) then Inl BatchClosedOrNonexistent
          else
            Inr (s\<lparr>lastSubmissionTime := (lastSubmissionTime s)(sender := now),
                   payments := payments s @
                     [\<lparr>provider = sender, encryptedAmount = FHE_asEuint32 amount,
                       submissionTimestamp = now\<rparr>],
                   batches := butlast (batches s) @
                     [(last (batches s))\<lparr>totalEncryptedAmount :=
                        FHE_add (totalEncryptedAmount (last (batches s)))
                                (FHE_asEuint32 amount)\<rparr>],
                   events := events s @
                     [PaymentSubmitted (of_nat (length (payments s)))
                        (id_batch (last (batches s))) sender (FHE_asEuint32 amount)]\<rparr>))"

definition closeBatch :: "state \<Rightarrow> address \<Rightarrow> error + state" where
  "closeBatch s sender =
     (if \<not> providers s sender then Inl NotProvider
      else if paused s then Inl Paused
      else if batches s = [] \<or> closed (last (batches s)) then Inl BatchClosedOrNonexistent
      else
        Inr (s\<lparr>batches := butlast (batches s) @ [(last (batches s))\<lparr>closed := True\<rparr>],
               events := events s @
                 [BatchClosed (id_batch (last (batches s)))
                    (totalEncryptedAmount (last (batches s)))]\<rparr>))"

subsection \<open>The decryption protocol\<close>

text \<open>
  \<open>abi.encode(cts, address(this))\<close> for a \<open>bytes32[]\<close> and an address: the offset of the
  array (two head words, \<open>0x40\<close>), the address padded to a word, then the length of the
  array and its elements.
\<close>

definition abi_encode :: "bytes32 list \<Rightarrow> address \<Rightarrow> uint256 list" where
  "abi_encode cts a = [0x40, ucast a, of_nat (length cts)] @ cts"

definition hashCiphertexts :: "fhe_env \<Rightarrow> bytes32 list \<Rightarrow> bytes32" where
  "hashCiphertexts env cts = keccak256 env (abi_encode cts (this_address env))"

text \<open>
  Both \<open>requestBatchTotalDecryption\<close> and \<open>myCallback\<close> build the one-element array
  \<open>cts\<close> from the stored aggregate of the batch and hash it with \<open>_hashCiphertexts\<close>.
\<close>

definition batch_cts :: "fhe_env \<Rightarrow> state \<Rightarrow> uint256 \<Rightarrow> bytes32 list" where
  "batch_cts env s b = [FHE_toBytes32 env (totalEncryptedAmount (batches s ! unat b))]"

text \<open>
  \<open>requestId\<close> is the value returned by \<open>FHE.requestDecryption\<close>, chosen by the
  oracle's library: it is an input of the model.
\<close>

definition requestBatchTotalDecryption ::
  "fhe_env \<Rightarrow> state \<Rightarrow> address \<Rightarrow> uint256 \<Rightarrow> uint256 \<Rightarrow> uint256 \<Rightarrow> error + state" where
  "requestBatchTotalDecryption env s sender now b requestId =
     (if paused s then Inl Paused
      else case checked_add (lastDecryptionRequestTime s sender) (cooldownSeconds s) of
        Inl e \<Rightarrow> Inl e
      | Inr ready \<Rightarrow>
          if now < ready then Inl CooldownActive
          else if unat b \<ge> length (batches s) \<or> \<not> closed (batches s ! unat b)
            then Inl InvalidBatch
          else
            Inr (s\<lparr>lastDecryptionRequestTime :=
                     (lastDecryptionRequestTime s)(sender := now),
                   decryptionContexts := (decryptionContexts s)(requestId \<mapsto>
                     \<lparr>batchId = b, stateHash = hashCiphertexts env (batch_cts env s b),
                      processed = False\<rparr>),
                   events := events s @
                     [DecryptionRequested requestId b
                        (hashCiphertexts env (batch_cts env s b))]\<rparr>))"

text \<open>
  \<open>abi.decode(cleartexts, (uint256))\<close> reverts on fewer than 32 bytes and reads the
  first 32 bytes as a big-endian number otherwise.
\<close>

definition abi_decode_uint256 :: "bytes \<Rightarrow> error + uint256" where
  "abi_decode_uint256 cleartexts =
     (if length cleartexts < 32 then Inl AbiDecodeRevert
      else Inr (foldl (\<lambda>acc x. acc * 256 + ucast x) 0 (take 32 cleartexts)))"

definition myCallback ::
  "fhe_env \<Rightarrow> state \<Rightarrow> uint256 \<Rightarrow> bytes \<Rightarrow> bytes \<Rightarrow> error + state" where
  "myCallback env s requestId cleartexts prf =
     (if processed (context_at s requestId) then Inl ReplayAttempt
      else if unat (batchId (context_at s requestId)) \<ge> length (batches s)
              \<or> \<not> closed (batches s ! unat (batchId (context_at s requestId)))
        then Inl InvalidBatch
      else if hashCiphertexts env (batch_cts env s (batchId (context_at s requestId)))
              \<noteq> stateHash (context_at s requestId)
        then Inl StateMismatch
      else if \<not> FHE_checkSignatures env requestId cleartexts prf then Inl InvalidProof
      else case abi_decode_uint256 cleartexts of
        Inl e \<Rightarrow> Inl e
      | Inr totalAmount \<Rightarrow>
          Inr (s\<lparr>decryptionContexts := (decryptionContexts s)(requestId \<mapsto>
                   (context_at s requestId)\<lparr>processed := True\<rparr>),
                 events := events s @
                   [DecryptionCompleted requestId (batchId (context_at s requestId))
                      totalAmount]\<rparr>))"

subsection \<open>Read accessors\<close>

text \<open>
  The public getters of the two arrays revert, without revert data, on an index out
  of range; the getters of the scalar and mapping variables are the fields of the
  state.
\<close>

definition get_batches :: "state \<Rightarrow> uint256 \<Rightarrow> error + Batch" where
  "get_batches s i =
     (if unat i < length (batches s) then Inr (batches s ! unat i) else Inl EmptyRevert)"

definition get_payments :: "state \<Rightarrow> uint256 \<Rightarrow> error + Payment" where
  "get_payments s i =
     (if unat i < length (payments s) then Inr (payments s ! unat i) else Inl EmptyRevert)"

subsection \<open>Transactions and runs\<close>

datatype call =
    TransferOwnership address
  | AddProvider address
  | RemoveProvider address
  | SetPaused bool
  | SetCooldownSeconds uint256
  | OpenBatch
  | SubmitPayment uint32
  | CloseBatch
  | RequestBatchTotalDecryption uint256 uint256
  | MyCallback uint256 bytes bytes

text \<open>A transaction is the caller, the block timestamp and the call.\<close>

type_synonym tx = "address \<times> uint256 \<times> call"

fun dispatch :: "fhe_env \<Rightarrow> state \<Rightarrow> address \<Rightarrow> uint256 \<Rightarrow> call \<Rightarrow> error + state" where
  "dispatch env s sender now (TransferOwnership a) = transferOwnership s sender a"
| "dispatch env s sender now (AddProvider a) = addProvider s sender a"
| "dispatch env s sender now (RemoveProvider a) = removeProvider s sender a"
| "dispatch env s sender now (SetPaused p) = setPaused s sender p"
| "dispatch env s sender now (SetCooldownSeconds c) = setCooldownSeconds s sender c"
| "dispatch env s sender now OpenBatch = openBatch s sender now"
| "dispatch env s sender now (SubmitPayment v) = submitPayment s sender now v"
| "dispatch env s sender now CloseBatch = closeBatch s sender"
| "dispatch env s sender now (RequestBatchTotalDecryption b r) =
     requestBatchTotalDecryption env s sender now b r"
| "dispatch env s sender now (MyCallback r c p) = myCallback env s r c p"

fun exec :: "fhe_env \<Rightarrow> state \<Rightarrow> tx \<Rightarrow> state" where
  "exec env s (sender, now, c) =
     (case dispatch env s sender now c of Inl e \<Rightarrow> s | Inr s' \<Rightarrow> s')"

fun run :: "fhe_env \<Rightarrow> state \<Rightarrow> tx list \<Rightarrow> state" where
  "run env s [] = s"
| "run env s (t # ts) = run env (exec env s t) ts"

text \<open>A run of \<open>submitPayment\<close> calls, all of which must succeed.\<close>

fun submitAll :: "state \<Rightarrow> (address \<times> uint256 \<times> uint32) list \<Rightarrow> error + state" where
  "submitAll s [] = Inr s"
| "submitAll s ((sender, now, amount) # cs) =
     (case submitPayment s sender now amount of
        Inl e \<Rightarrow> Inl e
      | Inr s' \<Rightarrow> submitAll s' cs)"

text \<open>The plaintext contributions of a run of submissions.\<close>

definition amounts :: "(address \<times> uint256 \<times> uint32) list \<Rightarrow> uint32 list" where
  "amounts cs = map (\<lambda>(sender, now, amount). amount) cs"

text \<open>
  The contributions a run of transactions makes to the batch at index \<open>k\<close>: the
  amount of every \<open>submitPayment\<close> that succeeds while batch \<open>k\<close> is the latest batch
  (the only batch a submission adds to), in the order of the run. Reverted submissions,
  submissions that go to another batch and all other calls contribute nothing.
\<close>

fun contribution :: "state \<Rightarrow> tx \<Rightarrow> nat \<Rightarrow> uint32 list" where
  "contribution s (sender, now, SubmitPayment amount) k =
     (case submitPayment s sender now amount of
        Inl e \<Rightarrow> []
      | Inr s' \<Rightarrow> if length (batches s) = Suc k then [amount] else [])"
| "contribution s (sender, now, c) k = []"

fun contributions :: "fhe_env \<Rightarrow> state \<Rightarrow> tx list \<Rightarrow> nat \<Rightarrow> uint32 list" where
  "contributions env s [] k = []"
| "contributions env s (t # ts) k =
     contribution s t k @ contributions env (exec env s t) ts k"

text \<open>The batches whose \<open>closed\<close> flag is false.\<close>

definition open_batches :: "state \<Rightarrow> Batch list" where
  "open_batches s = filter (\<lambda>b. \<not> closed b) (batches s)"

text \<open>
  A sequence of transactions in which \<open>openBatch\<close> is only called when there is no
  batch yet or the latest batch is closed.
\<close>

fun opens_after_close :: "fhe_env \<Rightarrow> state \<Rightarrow> tx list \<Rightarrow> bool" where
  "opens_after_close env s [] = True"
| "opens_after_close env s ((sender, now, c) # txs) =
     ((c = OpenBatch \<longrightarrow> batches s = [] \<or> closed (last (batches s)))
      \<and> opens_after_close env (exec env s (sender, now, c)) txs)"

section \<open>The error names of the specification\<close>

text \<open>
  The specification names the failures \<open>NotAuthorized\<close>, \<open>SystemPaused\<close>,
  \<open>CooldownActive\<close>, \<open>NoOpenBatch\<close>, \<open>InvalidBatch\<close>, \<open>UnknownRequest\<close>,
  \<open>ReplayAttempt\<close>, \<open>StateMismatch\<close> and \<open>InvalidProof\<close>. \<open>spec_error_of\<close> gives
  the name each error of the contract goes by there; the compiler's reverts have
  none, and no error of the contract is \<open>UnknownRequest\<close>.
\<close>

datatype spec_error =
    Spec_NotAuthorized
  | Spec_SystemPaused
  | Spec_CooldownActive
  | Spec_NoOpenBatch
  | Spec_InvalidBatch
  | Spec_UnknownRequest
  | Spec_ReplayAttempt
  | Spec_StateMismatch
  | Spec_InvalidProof

fun spec_error_of :: "error \<Rightarrow> spec_error option" where
  "spec_error_of NotOwner = Some Spec_NotAuthorized"
| "spec_error_of NotProvider = Some Spec_NotAuthorized"
| "spec_error_of Paused = Some Spec_SystemPaused"
| "spec_error_of CooldownActive = Some Spec_CooldownActive"
| "spec_error_of BatchClosedOrNonexistent = Some Spec_NoOpenBatch"
| "spec_error_of InvalidBatch = Some Spec_InvalidBatch"
| "spec_error_of ReplayAttempt = Some Spec_ReplayAttempt"
| "spec_error_of StateMismatch = Some Spec_StateMismatch"
| "spec_error_of InvalidProof = Some Spec_InvalidProof"
| "spec_error_of Panic = None"
| "spec_error_of AbiDecodeRevert = None"
| "spec_error_of EmptyRevert = None"

definition fails_with :: "error + state \<Rightarrow> spec_error \<Rightarrow> bool" where
  "fails_with res e = (case res of Inl x \<Rightarrow> spec_error_of x = Some e | Inr s' \<Rightarrow> False)"

section \<open>Sample collaborators and states\<close>

text \<open>
  A concrete instance of the collaborators and the states of one life cycle, on which
  the theorems below are evaluated: the owner (address 1) registers provider 2 at time
  10; the provider opens batch 0 at 100, submits 10 at 200 and 15 at 300, and closes
  the batch at 400; address 3 requests the total at 500 and the oracle's library
  answers with request id 7; the callback arrives at 600 with the payload 25. The
  hash, the byte representation of a ciphertext and the signature check of \<open>demo_env\<close>
  are simple stand-ins: the theorems hold for every choice of them.
\<close>

definition demo_env :: fhe_env where
  "demo_env = \<lparr>this_address = 42, keccak256 = (\<lambda>ws. sum_list ws + 1),
     FHE_toBytes32 = (\<lambda>c. ucast (decrypt c) + 7),
     FHE_checkSignatures = (\<lambda>r c p. p \<noteq> [])\<rparr>"

definition demo_registered :: state where
  "demo_registered = run demo_env (constructor 1) [(1, 10, AddProvider 2)]"

definition demo_opened :: state where
  "demo_opened = run demo_env demo_registered [(2, 100, OpenBatch)]"

definition demo_submitted :: state where
  "demo_submitted =
     run demo_env demo_opened [(2, 200, SubmitPayment 10), (2, 300, SubmitPayment 15)]"

definition demo_closed :: state where
  "demo_closed = run demo_env demo_submitted [(2, 400, CloseBatch)]"

definition demo_requested :: state where
  "demo_requested = run demo_env demo_closed [(3, 500, RequestBatchTotalDecryption 0 7)]"

definition demo_payload :: bytes where
  "demo_payload =
     [0, 0, 0, 0, 0, 0, 0, 0, 0, 0, 0, 0, 0, 0, 0, 0,
      0, 0, 0, 0, 0, 0, 0, 0, 0, 0, 0, 0, 0, 0, 0, 25]"

definition demo_finalized :: state where
  "demo_finalized = run demo_env demo_requested [(9, 600, MyCallback 7 demo_payload [1])]"

text \<open>
  Two runs on the opened batch that submit 10 and 15 in either order. In the first
  they stand between other calls: a submission of 99 inside the cooldown (reverted), a
  change of the cooldown by the owner, a request for the still open batch (reverted),
  the close, and a submission of 4 after the close (reverted). In the second the owner
  sets the cooldown to 0 first.
\<close>

definition demo_mixed :: "tx list" where
  "demo_mixed =
     [(2, 200, SubmitPayment 10), (2, 205, SubmitPayment 99), (1, 210, SetCooldownSeconds 0),
      (2, 220, SubmitPayment 15), (3, 225, RequestBatchTotalDecryption 0 7),
      (2, 230, CloseBatch), (2, 240, SubmitPayment 4)]"

definition demo_mixed_swapped :: "tx list" where
  "demo_mixed_swapped =
     [(1, 150, SetCooldownSeconds 0), (2, 200, SubmitPayment 15), (2, 201, SubmitPayment 10)]"


text \<open>
  Further sample states: paused after the batch was closed, paused with a request
  pending, the cooldown raised to the largest \<open>uint256\<close>, two batches opened in a row,
  and a second batch opened over the open first one (with and without a pause).
\<close>

definition demo_paused :: state where
  "demo_paused = run demo_env demo_closed [(1, 450, SetPaused True)]"

definition demo_requested_paused :: state where
  "demo_requested_paused = run demo_env demo_requested [(1, 550, SetPaused True)]"


definition demo_two_open :: state where
  "demo_two_open =
     run demo_env (constructor 1)
       [(1, 10, AddProvider 2), (2, 100, OpenBatch), (2, 200, OpenBatch)]"



section \<open>How each call changes the array of batches\<close>

lemmas admin_defs = transferOwnership_def addProvider_def removeProvider_def setPaused_def
  setCooldownSeconds_def

lemma nth_butlast_snoc: "Suc i < length xs \<Longrightarrow> (butlast xs @ [y]) ! i = xs ! i"
  by (auto simp: nth_append nth_butlast)

lemma submitPayment_batches:
  assumes "submitPayment s a t v = Inr s'"
  shows "batches s \<noteq> [] \<and> \<not> closed (last (batches s)) \<and>
         batches s' = butlast (batches s) @
           [(last (batches s))\<lparr>totalEncryptedAmount :=
              Euint32 (decrypt (totalEncryptedAmount (last (batches s))) + v)\<rparr>]"
  using assms
  by (auto simp: submitPayment_def FHE_add_def FHE_asEuint32_def split: if_splits sum.splits)

lemma closeBatch_batches:
  assumes "closeBatch s a = Inr s'"
  shows "batches s \<noteq> [] \<and> \<not> closed (last (batches s)) \<and>
         batches s' = butlast (batches s) @ [(last (batches s))\<lparr>closed := True\<rparr>]"
  using assms by (auto simp: closeBatch_def split: if_splits)

lemma openBatch_batches:
  assumes "openBatch s a t = Inr s'"
  shows "batches s' = batches s @
           [\<lparr>id_batch = of_nat (length (batches s)), totalEncryptedAmount = Euint32 0,
             closed = False\<rparr>]"
  using assms by (auto simp: openBatch_def FHE_asEuint32_def split: if_splits sum.splits)

lemma requestBatchTotalDecryption_batches:
  "requestBatchTotalDecryption env s a t b r = Inr s' \<Longrightarrow> batches s' = batches s"
  by (auto simp: requestBatchTotalDecryption_def split: if_splits sum.splits)

lemma myCallback_batches:
  "myCallback env s r c p = Inr s' \<Longrightarrow> batches s' = batches s"
  by (auto simp: myCallback_def split: if_splits sum.splits)

lemma admin_batches:
  "transferOwnership s a x = Inr s' \<Longrightarrow> batches s' = batches s"
  "addProvider s a x = Inr s' \<Longrightarrow> batches s' = batches s"
  "removeProvider s a x = Inr s' \<Longrightarrow> batches s' = batches s"
  "setPaused s a p = Inr s' \<Longrightarrow> batches s' = batches s"
  "setCooldownSeconds s a n = Inr s' \<Longrightarrow> batches s' = batches s"
  by (auto simp: admin_defs split: if_splits)

text \<open>What a successful call can do to the array of batches.\<close>

lemma dispatch_batches:
  assumes "dispatch env s a t c = Inr s'"
  shows "batches s' = batches s
       \<or> (\<exists>b. batches s' = batches s @ [b] \<and> \<not> closed b \<and> c = OpenBatch)
       \<or> (\<exists>b. batches s \<noteq> [] \<and> \<not> closed (last (batches s)) \<and>
              batches s' = butlast (batches s) @ [b] \<and> c \<noteq> OpenBatch)"
proof (cases c)
  case OpenBatch
  with assms openBatch_batches [of s a t s'] show ?thesis by simp
next
  case (SubmitPayment v)
  with assms submitPayment_batches [of s a t v s'] show ?thesis by simp
next
  case CloseBatch
  with assms closeBatch_batches [of s a s'] show ?thesis by simp
next
  case (RequestBatchTotalDecryption b r)
  with assms requestBatchTotalDecryption_batches show ?thesis by simp
next
  case (MyCallback r cs p)
  with assms myCallback_batches show ?thesis by simp
qed (use assms admin_batches in auto)

lemma exec_batches:
  "batches (exec env s tx) = batches s
   \<or> (\<exists>b. batches (exec env s tx) = batches s @ [b] \<and> \<not> closed b \<and> snd (snd tx) = OpenBatch)
   \<or> (\<exists>b. batches s \<noteq> [] \<and> \<not> closed (last (batches s)) \<and>
          batches (exec env s tx) = butlast (batches s) @ [b] \<and> snd (snd tx) \<noteq> OpenBatch)"
proof -
  obtain a t c where tx: "tx = (a, t, c)" by (cases tx) auto
  show ?thesis
  proof (cases "dispatch env s a t c")
    case (Inl e)
    then show ?thesis by (simp add: tx)
  next
    case (Inr s')
    from dispatch_batches [OF Inr] show ?thesis by (simp add: tx Inr)
  qed
qed

lemma exec_closed_kept:
  assumes "i < length (batches s)" and "closed (batches s ! i)"
  shows "i < length (batches (exec env s tx)) \<and> batches (exec env s tx) ! i = batches s ! i"
proof -
  from exec_batches [of env s tx] consider
      (same) "batches (exec env s tx) = batches s"
    | (push) b where "batches (exec env s tx) = batches s @ [b]"
    | (upd) b where "batches s \<noteq> []" "\<not> closed (last (batches s))"
        "batches (exec env s tx) = butlast (batches s) @ [b]"
    by blast
  then show ?thesis
  proof cases
    case same
    with assms show ?thesis by simp
  next
    case push
    with assms show ?thesis by (simp add: nth_append)
  next
    case upd
    from upd(1,2) assms have "i \<noteq> length (batches s) - 1"
      by (auto simp: last_conv_nth)
    with assms(1) have "Suc i < length (batches s)" by simp
    with upd(3) show ?thesis by (simp add: nth_butlast_snoc)
  qed
qed

lemma run_closed_kept:
  assumes "i < length (batches s)" and "closed (batches s ! i)"
  shows "i < length (batches (run env s txs)) \<and> batches (run env s txs) ! i = batches s ! i"
  using assms
proof (induction txs arbitrary: s)
  case Nil
  then show ?case by simp
next
  case (Cons tx txs)
  from exec_closed_kept [OF Cons.prems, of env tx]
  have k: "i < length (batches (exec env s tx))" "batches (exec env s tx) ! i = batches s ! i"
    by simp_all
  with Cons.prems(2) have "closed (batches (exec env s tx) ! i)" by simp
  from Cons.IH [OF k(1) this] k(2) show ?case by simp
qed

lemmas op_defs = admin_defs openBatch_def submitPayment_def closeBatch_def
  requestBatchTotalDecryption_def myCallback_def checked_add_def context_at_def
  zero_context_def FHE_add_def FHE_asEuint32_def hashCiphertexts_def batch_cts_def
  abi_encode_def abi_decode_uint256_def

lemmas demo_defs = demo_env_def demo_registered_def demo_opened_def demo_submitted_def
  demo_closed_def demo_requested_def demo_payload_def demo_finalized_def constructor_def

lemma submitAll_total:
  assumes "submitAll s cs = Inr s'" and "batches s \<noteq> []"
  shows "length (batches s') = length (batches s) \<and>
         butlast (batches s') = butlast (batches s) \<and>
         decrypt (totalEncryptedAmount (last (batches s'))) =
           decrypt (totalEncryptedAmount (last (batches s))) + sum_list (amounts cs)"
  using assms
proof (induction cs arbitrary: s)
  case Nil
  then show ?case by (simp add: amounts_def)
next
  case (Cons c cs)
  obtain a t v where c: "c = (a, t, v)" by (cases c) auto
  from Cons.prems(1) obtain s1 where
    s1: "submitPayment s a t v = Inr s1" and rest: "submitAll s1 cs = Inr s'"
    by (auto simp: c split: sum.splits)
  from submitPayment_batches [OF s1] have
    b1: "batches s1 = butlast (batches s) @
           [(last (batches s))\<lparr>totalEncryptedAmount :=
              Euint32 (decrypt (totalEncryptedAmount (last (batches s))) + v)\<rparr>]"
    by simp
  then have ne: "batches s1 \<noteq> []" by simp
  from Cons.prems(2) b1 have len: "length (batches s1) = length (batches s)"
    by (cases "batches s" rule: rev_cases) auto
  from b1 have "butlast (batches s1) = butlast (batches s)"
    and "decrypt (totalEncryptedAmount (last (batches s1))) =
           decrypt (totalEncryptedAmount (last (batches s))) + v"
    by simp_all
  with Cons.IH [OF rest ne] len show ?case
    by (simp add: c amounts_def add.assoc)
qed

section \<open>Aggregation\<close>

lemma exec_aggregate:
  assumes "k < length (batches s)"
  shows "k < length (batches (exec env s tx))
       \<and> decrypt (totalEncryptedAmount (batches (exec env s tx) ! k)) =
           decrypt (totalEncryptedAmount (batches s ! k)) + sum_list (contribution s tx k)"
proof -
  obtain a t c where tx: "tx = (a, t, c)" by (cases tx) auto
  show ?thesis
  proof (cases "dispatch env s a t c")
    case (Inl e)
    with assms show ?thesis by (cases c) (simp_all add: tx)
  next
    case (Inr s')
    then have ex: "exec env s tx = s'" by (simp add: tx)
    show ?thesis
    proof (cases c)
      case OpenBatch
      with Inr openBatch_batches [of s a t s'] assms show ?thesis
        by (simp add: ex tx nth_append)
    next
      case (SubmitPayment v)
      with Inr have sp: "submitPayment s a t v = Inr s'" by simp
      from submitPayment_batches [OF sp] have
        b: "batches s' = butlast (batches s) @
              [(last (batches s))\<lparr>totalEncryptedAmount :=
                 Euint32 (decrypt (totalEncryptedAmount (last (batches s))) + v)\<rparr>]"
        and ne: "batches s \<noteq> []"
        by simp_all
      from ne b have len: "length (batches s') = length (batches s)"
        by (cases "batches s" rule: rev_cases) auto
      show ?thesis
      proof (cases "length (batches s) = Suc k")
        case True
        with ne have "last (batches s) = batches s ! k" by (simp add: last_conv_nth)
        moreover from True b have
          "batches s' ! k = (last (batches s))\<lparr>totalEncryptedAmount :=
             Euint32 (decrypt (totalEncryptedAmount (last (batches s))) + v)\<rparr>"
          by (simp add: nth_append)
        ultimately show ?thesis using assms len True sp
          by (simp add: ex tx SubmitPayment)
      next
        case False
        with assms have "Suc k < length (batches s)" by simp
        with b have "batches s' ! k = batches s ! k" by (simp add: nth_butlast_snoc)
        with assms len False sp show ?thesis by (simp add: ex tx SubmitPayment)
      qed
    next
      case CloseBatch
      with Inr have cb: "closeBatch s a = Inr s'" by simp
      from closeBatch_batches [OF cb] have
        b: "batches s' = butlast (batches s) @ [(last (batches s))\<lparr>closed := True\<rparr>]"
        and ne: "batches s \<noteq> []"
        by simp_all
      from ne b have len: "length (batches s') = length (batches s)"
        by (cases "batches s" rule: rev_cases) auto
      have "totalEncryptedAmount (batches s' ! k) = totalEncryptedAmount (batches s ! k)"
      proof (cases "length (batches s) = Suc k")
        case True
        with ne have "last (batches s) = batches s ! k" by (simp add: last_conv_nth)
        with True b show ?thesis by (simp add: nth_append)
      next
        case False
        with assms have "Suc k < length (batches s)" by simp
        with b show ?thesis by (simp add: nth_butlast_snoc)
      qed
      with assms len cb show ?thesis by (simp add: tx CloseBatch)
    next
      case (RequestBatchTotalDecryption b r)
      with Inr requestBatchTotalDecryption_batches [of env s a t b r s'] assms
      show ?thesis by (simp add: ex tx)
    next
      case (MyCallback r cs p)
      with Inr myCallback_batches [of env s r cs p s'] assms show ?thesis
        by (simp add: ex tx)
    next
      case (TransferOwnership x)
      with Inr admin_batches(1) [of s a x s'] assms show ?thesis by (simp add: ex tx)
    next
      case (AddProvider x)
      with Inr admin_batches(2) [of s a x s'] assms show ?thesis by (simp add: ex tx)
    next
      case (RemoveProvider x)
      with Inr admin_batches(3) [of s a x s'] assms show ?thesis by (simp add: ex tx)
    next
      case (SetPaused x)
      with Inr admin_batches(4) [of s a x s'] assms show ?thesis by (simp add: ex tx)
    next
      case (SetCooldownSeconds x)
      with Inr admin_batches(5) [of s a x s'] assms show ?thesis by (simp add: ex tx)
    qed
  qed
qed

lemma run_aggregate:
  assumes "k < length (batches s)"
  shows "k < length (batches (run env s txs))
       \<and> decrypt (totalEncryptedAmount (batches (run env s txs) ! k)) =
           decrypt (totalEncryptedAmount (batches s ! k))
             + sum_list (contributions env s txs k)"
  using assms
proof (induction txs arbitrary: s)
  case Nil
  then show ?case by simp
next
  case (Cons tx txs)
  from exec_aggregate [OF Cons.prems, of env tx] have
    l: "k < length (batches (exec env s tx))"
    and e: "decrypt (totalEncryptedAmount (batches (exec env s tx) ! k)) =
           decrypt (totalEncryptedAmount (batches s ! k)) + sum_list (contribution s tx k)"
    by simp_all
  from Cons.IH [OF l] e show ?case by (simp add: add.assoc)
qed

lemma submitAll_aggregate:
  assumes "openBatch s0 a0 t0 = Inr s" and "submitAll s cs = Inr s'"
  shows "decrypt (totalEncryptedAmount (batches s' ! length (batches s0))) =
           sum_list (amounts cs)"
proof -
  from openBatch_batches [OF assms(1)] have
    b: "batches s = batches s0 @
          [\<lparr>id_batch = of_nat (length (batches s0)), totalEncryptedAmount = Euint32 0,
            closed = False\<rparr>]" .
  then have ne: "batches s \<noteq> []"
    and z: "decrypt (totalEncryptedAmount (last (batches s))) = 0"
    and l: "length (batches s) = Suc (length (batches s0))"
    by simp_all
  from submitAll_total [OF assms(2) ne] z l have
    "length (batches s') = Suc (length (batches s0))"
    "decrypt (totalEncryptedAmount (last (batches s'))) = sum_list (amounts cs)"
    by simp_all
  moreover from this(1) have "last (batches s') = batches s' ! length (batches s0)"
    by (cases "batches s'" rule: rev_cases) (auto simp: nth_append)
  ultimately show ?thesis by simp
qed

text \<open>
  C1. After a batch is opened, whatever transactions follow (submissions by any
  provider, successful or reverted, interleaved with any other calls), the decrypted
  aggregate of that batch is the sum (of 32-bit integers, as \<open>FHE.add\<close> adds) of the
  plaintext values of the successful submissions into it; two runs whose contributions
  to the batch are the same up to order give the same total. In particular a run of
  \<open>submitPayment\<close> calls that all succeed leaves the sum of their amounts.
\<close>

theorem submitPayment_aggregate_is_sum:
  assumes "openBatch s0 a0 t0 = Inr s"
    and "mset (contributions env s txs' (length (batches s0))) =
         mset (contributions env s txs (length (batches s0)))"
    and "submitAll s cs = Inr s'"
  shows "decrypt (totalEncryptedAmount (batches (run env s txs) ! length (batches s0))) =
           sum_list (contributions env s txs (length (batches s0)))
       \<and> decrypt (totalEncryptedAmount (batches (run env s txs') ! length (batches s0))) =
           decrypt (totalEncryptedAmount (batches (run env s txs) ! length (batches s0)))
       \<and> decrypt (totalEncryptedAmount (batches s' ! length (batches s0))) =
           sum_list (amounts cs)"
proof -
  let ?k = "length (batches s0)"
  from openBatch_batches [OF assms(1)] have
    b: "batches s = batches s0 @
          [\<lparr>id_batch = of_nat ?k, totalEncryptedAmount = Euint32 0, closed = False\<rparr>]" .
  then have l: "?k < length (batches s)"
    and z: "decrypt (totalEncryptedAmount (batches s ! ?k)) = 0"
    by simp_all
  have tot: "decrypt (totalEncryptedAmount (batches (run env s ts) ! ?k)) =
      sum_list (contributions env s ts ?k)" for ts
    using run_aggregate [OF l, of env ts] z by simp
  from assms(2) have
    "sum_mset (mset (contributions env s txs' ?k)) =
     sum_mset (mset (contributions env s txs ?k))"
    by simp
  then have "sum_list (contributions env s txs' ?k) = sum_list (contributions env s txs ?k)"
    by (simp only: sum_mset_sum_list)
  with tot [of txs] tot [of txs'] submitAll_aggregate [OF assms(1,3)] show ?thesis
    by simp
qed

text \<open>
  The scenario of the specification, between other calls: into the freshly opened
  batch 0 the provider submits 10 and 15; the total is 25 in either order, and the
  reverted submissions of 99 and 4 do not count.
\<close>

theorem submitPayment_aggregate_is_sum_witness:
  "openBatch demo_registered 2 100 = Inr demo_opened
   \<and> contributions demo_env demo_opened demo_mixed 0 = [10, 15]
   \<and> contributions demo_env demo_opened demo_mixed_swapped 0 = [15, 10]
   \<and> decrypt (totalEncryptedAmount (batches (run demo_env demo_opened demo_mixed) ! 0)) = 25
   \<and> decrypt (totalEncryptedAmount
        (batches (run demo_env demo_opened demo_mixed_swapped) ! 0)) = 25
   \<and> submitAll demo_opened [(2, 200, 10), (2, 300, 15)] = Inr demo_submitted
   \<and> decrypt (totalEncryptedAmount (batches demo_submitted ! 0)) = 25"
proof -
  have h1: "openBatch demo_registered 2 100 = Inr demo_opened"
    by (simp add: demo_defs op_defs)
  have c1: "contributions demo_env demo_opened demo_mixed 0 = [10, 15]"
    by (simp add: demo_mixed_def demo_defs op_defs)
  have c2: "contributions demo_env demo_opened demo_mixed_swapped 0 = [15, 10]"
    by (simp add: demo_mixed_swapped_def demo_defs op_defs)
  have k: "length (batches demo_registered) = 0"
    by (simp add: demo_defs op_defs)
  have h2: "mset (contributions demo_env demo_opened demo_mixed_swapped
                    (length (batches demo_registered))) =
      mset (contributions demo_env demo_opened demo_mixed
                    (length (batches demo_registered)))"
    by (simp add: k c1 c2)
  have h3: "submitAll demo_opened [(2, 200, 10), (2, 300, 15)] = Inr demo_submitted"
    by (simp add: demo_defs op_defs)
  from submitPayment_aggregate_is_sum [OF h1 h2 h3] h1 h3 c1 c2 k show ?thesis
    by (simp add: amounts_def)
qed

section \<open>The decryption callback\<close>

lemma myCallback_sets_processed:
  assumes "myCallback env s r c p = Inr s'"
  shows "processed (context_at s' r)"
  using assms
  by (auto simp: myCallback_def context_at_def split: if_splits sum.splits)

text \<open>
  C2. Once the context of a request is processed (in particular after a successful
  callback for that request), every further \<open>myCallback\<close> with the same request id
  reverts with \<open>ReplayAttempt\<close>: the state, and with it the log of events and the
  total reported by the first \<open>DecryptionCompleted\<close>, stays as it was.
\<close>

theorem myCallback_replay_rejected:
  assumes "processed (context_at s requestId) \<or> myCallback env s0 requestId c0 p0 = Inr s"
  shows "myCallback env s requestId c p = Inl ReplayAttempt
       \<and> exec env s (a, t, MyCallback requestId c p) = s
       \<and> events (exec env s (a, t, MyCallback requestId c p)) = events s"
proof -
  from assms myCallback_sets_processed have "processed (context_at s requestId)"
    by blast
  then have "myCallback env s requestId c p = Inl ReplayAttempt"
    by (simp add: myCallback_def)
  then show ?thesis by simp
qed

text \<open>
  The first callback for request 7 finalises it with total 25; a second callback for
  request 7, now carrying another payload, reverts with \<open>ReplayAttempt\<close>.
\<close>

theorem myCallback_replay_rejected_witness:
  "myCallback demo_env demo_requested 7 demo_payload [1] = Inr demo_finalized
   \<and> DecryptionCompleted 7 0 25 \<in> set (events demo_finalized)
   \<and> myCallback demo_env demo_finalized 7 [99] [1] = Inl ReplayAttempt
   \<and> exec demo_env demo_finalized (9, 700, MyCallback 7 [99] [1]) =
       demo_finalized"
proof -
  have h: "myCallback demo_env demo_requested 7 demo_payload [1] = Inr demo_finalized"
    by (simp add: demo_defs op_defs)
  have e: "DecryptionCompleted 7 0 25 \<in> set (events demo_finalized)"
    by (simp add: demo_defs op_defs)
  from myCallback_replay_rejected [OF disjI2, OF h, of "[99]" "[1]" 9 700]
    h e show ?thesis by simp
qed




section \<open>Closed batches\<close>

text \<open>
  C5. A closed batch is never changed again: after any sequence of calls (batch,
  payment, decryption and admin operations, successful or reverted) the batch is still
  there with the same id, aggregate and closed flag, and its state fingerprint is the
  same.
\<close>

theorem closed_batch_immutable:
  assumes "unat b < length (batches s)" and "closed (batches s ! unat b)"
  shows "unat b < length (batches (run env s txs))
       \<and> batches (run env s txs) ! unat b = batches s ! unat b
       \<and> hashCiphertexts env (batch_cts env (run env s txs) b) =
           hashCiphertexts env (batch_cts env s b)"
  using run_closed_kept [OF assms, of env txs] by (simp add: batch_cts_def)

text \<open>
  After \<open>closeBatch\<close> batch 0 holds the aggregate 25; a further submission, a further
  close, a new batch with a payment, a decryption request, its callback and a pause
  leave batch 0 as it was.
\<close>

theorem closed_batch_immutable_witness:
  "closeBatch demo_submitted 2 = Inr demo_closed
   \<and> batches demo_closed ! 0 =
       \<lparr>id_batch = 0, totalEncryptedAmount = Euint32 25, closed = True\<rparr>
   \<and> batches (run demo_env demo_closed
        [(2, 500, SubmitPayment 5), (2, 600, CloseBatch), (2, 700, OpenBatch),
         (2, 800, SubmitPayment 3), (3, 900, RequestBatchTotalDecryption 0 7),
         (9, 950, MyCallback 7 demo_payload [1]), (1, 960, SetPaused True)]) ! 0 =
       \<lparr>id_batch = 0, totalEncryptedAmount = Euint32 25, closed = True\<rparr>"
proof -
  have c: "closeBatch demo_submitted 2 = Inr demo_closed"
    by (simp add: demo_defs op_defs)
  have b: "batches demo_closed =
      [\<lparr>id_batch = 0, totalEncryptedAmount = Euint32 25, closed = True\<rparr>]"
    by (simp add: demo_defs op_defs)
  have h1: "unat (0 :: uint256) < length (batches demo_closed)" by (simp add: b)
  have h2: "closed (batches demo_closed ! unat (0 :: uint256))" by (simp add: b)
  let ?txs = "[(2, 500, SubmitPayment 5), (2, 600, CloseBatch), (2, 700, OpenBatch),
         (2, 800, SubmitPayment 3), (3, 900, RequestBatchTotalDecryption 0 7),
         (9, 950, MyCallback 7 demo_payload [1]), (1, 960, SetPaused True)]"
  from closed_batch_immutable [OF h1 h2, of demo_env ?txs]
  have "batches (run demo_env demo_closed ?txs) ! 0 = batches demo_closed ! 0"
    by (simp del: run.simps)
  with b c show ?thesis by (simp del: run.simps)
qed

section \<open>The cooldown check\<close>

text \<open>
  The check \<open>block.timestamp < last + cooldownSeconds\<close> adds with overflow checking:
  it passes when the sum is at most the timestamp, reverts with \<open>CooldownActive\<close> when
  the sum fits in 256 bits and exceeds the timestamp, and panics when it does not fit.
\<close>

lemma unat_checked_sum:
  fixes a b :: uint256
  assumes "unat a + unat b < 2 ^ 256"
  shows "unat (a + b) = unat a + unat b"
  using assms by (simp add: unat_add_lem [THEN iffD1])

lemma cooldown_elapsed:
  fixes last cd t :: uint256
  assumes "unat last + unat cd \<le> unat t"
  shows "checked_add last cd = Inr (last + cd) \<and> \<not> t < last + cd"
proof -
  have "unat t < 2 ^ 256" using unsigned_less [of t] by simp
  with assms have lt: "unat last + unat cd < 2 ^ 256" by simp
  from unat_checked_sum [OF lt] assms have "\<not> unat t < unat (last + cd)" by simp
  with lt show ?thesis by (simp add: checked_add_def word_less_nat_alt)
qed


section \<open>Requesting a decryption\<close>

text \<open>
  C4 (amended). For every call of \<open>requestBatchTotalDecryption\<close> made while the system
  is not paused and the caller's decryption cooldown has elapsed: if the batch id does
  not reference an existing, closed batch the call reverts with \<open>InvalidBatch\<close> and
  changes no state; otherwise it succeeds and stores, under the request id supplied by
  the oracle, the context with that batch id, \<open>processed = false\<close> and the state
  fingerprint \<open>keccak256(abi.encode(cts, address(this)))\<close> of the batch's aggregate
  ciphertext. (The pause and cooldown checks come first: a paused system answers
  \<open>Paused\<close> whatever the batch id.)
\<close>

theorem requestBatchTotalDecryption_checks_batch:
  assumes "\<not> paused s"
    and "unat (lastDecryptionRequestTime s a) + unat (cooldownSeconds s) \<le> unat t"
  shows "(unat b \<ge> length (batches s) \<or> \<not> closed (batches s ! unat b) \<longrightarrow>
            requestBatchTotalDecryption env s a t b r = Inl InvalidBatch
          \<and> exec env s (a, t, RequestBatchTotalDecryption b r) = s)
       \<and> (unat b < length (batches s) \<and> closed (batches s ! unat b) \<longrightarrow>
            requestBatchTotalDecryption env s a t b r =
              Inr (s\<lparr>lastDecryptionRequestTime := (lastDecryptionRequestTime s)(a := t),
                     decryptionContexts := (decryptionContexts s)(r \<mapsto>
                       \<lparr>batchId = b,
                        stateHash = keccak256 env
                          [0x40, ucast (this_address env), 1,
                           FHE_toBytes32 env (totalEncryptedAmount (batches s ! unat b))],
                        processed = False\<rparr>),
                     events := events s @
                       [DecryptionRequested r b
                          (keccak256 env
                             [0x40, ucast (this_address env), 1,
                              FHE_toBytes32 env
                                (totalEncryptedAmount (batches s ! unat b))])]\<rparr>))"
proof -
  note g = cooldown_elapsed [OF assms(2)]
  have bad: "requestBatchTotalDecryption env s a t b r = Inl InvalidBatch"
    if "unat b \<ge> length (batches s) \<or> \<not> closed (batches s ! unat b)"
    using that assms(1) g by (auto simp: requestBatchTotalDecryption_def)
  have good: "requestBatchTotalDecryption env s a t b r =
      Inr (s\<lparr>lastDecryptionRequestTime := (lastDecryptionRequestTime s)(a := t),
             decryptionContexts := (decryptionContexts s)(r \<mapsto>
               \<lparr>batchId = b,
                stateHash = keccak256 env
                  [0x40, ucast (this_address env), 1,
                   FHE_toBytes32 env (totalEncryptedAmount (batches s ! unat b))],
                processed = False\<rparr>),
             events := events s @
               [DecryptionRequested r b
                  (keccak256 env
                     [0x40, ucast (this_address env), 1,
                      FHE_toBytes32 env (totalEncryptedAmount (batches s ! unat b))])]\<rparr>)"
    if "unat b < length (batches s) \<and> closed (batches s ! unat b)"
    using that assms(1) g
    by (simp add: requestBatchTotalDecryption_def hashCiphertexts_def batch_cts_def
        abi_encode_def)
  from bad good show ?thesis by simp
qed

text \<open>
  Not paused and out of cooldown: a request for batch 5 (there is only batch 0) and a
  request for batch 0 while it is still open revert with \<open>InvalidBatch\<close>; a request for
  the closed batch 0 stores the context under request id 7.
\<close>

theorem requestBatchTotalDecryption_checks_batch_witness:
  "requestBatchTotalDecryption demo_env demo_closed 3 500 5 7 = Inl InvalidBatch
   \<and> requestBatchTotalDecryption demo_env demo_opened 3 500 0 7 = Inl InvalidBatch
   \<and> requestBatchTotalDecryption demo_env demo_closed 3 500 0 7 = Inr demo_requested
   \<and> decryptionContexts demo_requested 7 =
       Some \<lparr>batchId = 0, stateHash = 140, processed = False\<rparr>"
proof -
  have p1: "\<not> paused demo_closed" and p2: "\<not> paused demo_opened"
    by (simp_all add: demo_defs op_defs)
  have c1: "unat (lastDecryptionRequestTime demo_closed 3) + unat (cooldownSeconds demo_closed)
      \<le> unat (500 :: uint256)"
    by (simp add: demo_defs op_defs)
  have c2: "unat (lastDecryptionRequestTime demo_opened 3) + unat (cooldownSeconds demo_opened)
      \<le> unat (500 :: uint256)"
    by (simp add: demo_defs op_defs)
  have b1: "batches demo_closed =
      [\<lparr>id_batch = 0, totalEncryptedAmount = Euint32 25, closed = True\<rparr>]"
    by (simp add: demo_defs op_defs)
  have b2: "batches demo_opened =
      [\<lparr>id_batch = 0, totalEncryptedAmount = Euint32 0, closed = False\<rparr>]"
    by (simp add: demo_defs op_defs)
  have r: "requestBatchTotalDecryption demo_env demo_closed 3 500 0 7 = Inr demo_requested"
    by (simp add: demo_defs op_defs)
  have d: "decryptionContexts demo_requested 7 =
      Some \<lparr>batchId = 0, stateHash = 140, processed = False\<rparr>"
    by (simp add: demo_defs op_defs)
  from requestBatchTotalDecryption_checks_batch [OF p1 c1, of 5 demo_env 7] b1
  have x: "requestBatchTotalDecryption demo_env demo_closed 3 500 5 7 = Inl InvalidBatch"
    by simp
  from requestBatchTotalDecryption_checks_batch [OF p2 c2, of 0 demo_env 7] b2
  have y: "requestBatchTotalDecryption demo_env demo_opened 3 500 0 7 = Inl InvalidBatch"
    by simp
  from x y r d show ?thesis by simp
qed

text \<open>
  C4 as stated fails on a paused system: the owner pauses after batch 0 was closed, and
  a request for batch 5, which does not exist, reverts with \<open>Paused\<close>, not with
  \<open>InvalidBatch\<close>.
\<close>

theorem requestBatchTotalDecryption_paused_counterexample:
  "\<not> unat (5 :: uint256) < length (batches demo_paused)
   \<and> requestBatchTotalDecryption demo_env demo_paused 3 500 5 7 = Inl Paused
   \<and> requestBatchTotalDecryption demo_env demo_paused 3 500 5 7 \<noteq> Inl InvalidBatch"
  by (simp add: demo_paused_def demo_defs op_defs)

section \<open>The submission cooldown\<close>




section \<open>Callbacks for unknown requests\<close>

lemma no_UnknownRequest: "\<not> fails_with res Spec_UnknownRequest"
proof (cases res)
  case (Inl x)
  then show ?thesis by (cases x) (simp_all add: fails_with_def)
next
  case (Inr s')
  then show ?thesis by (simp add: fails_with_def)
qed

text \<open>
  C7 (amended). The contract has no \<open>UnknownRequest\<close> error. A callback for a request
  id under which no context was stored reads the zero context (batch 0, fingerprint 0,
  not processed): it reverts with \<open>InvalidBatch\<close> when batch 0 does not exist or is
  not closed, and with \<open>StateMismatch\<close> when batch 0 is closed and its fingerprint is
  not zero; in both cases no state changes.
\<close>

theorem myCallback_unknown_request:
  assumes "decryptionContexts s requestId = None"
  shows "(batches s = [] \<or> \<not> closed (batches s ! 0) \<longrightarrow>
            myCallback env s requestId c p = Inl InvalidBatch
          \<and> exec env s (a, t, MyCallback requestId c p) = s)
       \<and> (batches s \<noteq> [] \<and> closed (batches s ! 0)
          \<and> hashCiphertexts env (batch_cts env s 0) \<noteq> 0 \<longrightarrow>
            myCallback env s requestId c p = Inl StateMismatch
          \<and> exec env s (a, t, MyCallback requestId c p) = s)
       \<and> \<not> fails_with (myCallback env s requestId c p) Spec_UnknownRequest"
proof -
  from assms have cx: "context_at s requestId = zero_context"
    by (simp add: context_at_def)
  have z: "batchId zero_context = 0" "stateHash zero_context = 0" "\<not> processed zero_context"
    by (simp_all add: zero_context_def)
  have a: "myCallback env s requestId c p = Inl InvalidBatch"
    if "batches s = [] \<or> \<not> closed (batches s ! 0)"
    using that by (auto simp: myCallback_def cx z)
  have b: "myCallback env s requestId c p = Inl StateMismatch"
    if "batches s \<noteq> [] \<and> closed (batches s ! 0)
        \<and> hashCiphertexts env (batch_cts env s 0) \<noteq> 0"
    using that by (simp add: myCallback_def cx z)
  from a b no_UnknownRequest show ?thesis by simp
qed

text \<open>
  Request id 99 was never issued. On the freshly constructed contract the callback
  reverts with \<open>InvalidBatch\<close> (there is no batch 0); once batch 0 is closed it reverts
  with \<open>StateMismatch\<close> (the fingerprint of batch 0 is 140, the zero context holds 0).
\<close>

theorem myCallback_unknown_request_witness:
  "decryptionContexts (constructor 1) 99 = None
   \<and> myCallback demo_env (constructor 1) 99 demo_payload [1] = Inl InvalidBatch
   \<and> decryptionContexts demo_closed 99 = None
   \<and> myCallback demo_env demo_closed 99 demo_payload [1] = Inl StateMismatch
   \<and> exec demo_env demo_closed (9, 600, MyCallback 99 demo_payload [1]) = demo_closed"
proof -
  have n1: "decryptionContexts (constructor 1) 99 = None" by (simp add: constructor_def)
  have n2: "decryptionContexts demo_closed 99 = None" by (simp add: demo_defs op_defs)
  have b1: "batches (constructor 1) = []" by (simp add: constructor_def)
  have b2: "batches demo_closed =
      [\<lparr>id_batch = 0, totalEncryptedAmount = Euint32 25, closed = True\<rparr>]"
    by (simp add: demo_defs op_defs)
  have h: "hashCiphertexts demo_env (batch_cts demo_env demo_closed 0) = 140"
    by (simp add: b2 demo_env_def hashCiphertexts_def batch_cts_def abi_encode_def)
  from myCallback_unknown_request [OF n1, of demo_env demo_payload "[1]" 9 600] b1
  have x: "myCallback demo_env (constructor 1) 99 demo_payload [1] = Inl InvalidBatch"
    by simp
  from myCallback_unknown_request [OF n2, of demo_env demo_payload "[1]" 9 600] b2 h
  have y: "myCallback demo_env demo_closed 99 demo_payload [1] = Inl StateMismatch
      \<and> exec demo_env demo_closed (9, 600, MyCallback 99 demo_payload [1]) = demo_closed"
    by simp
  from n1 n2 x y show ?thesis by simp
qed

text \<open>
  C7 as stated fails: on the freshly constructed contract the callback for the unknown
  request id 99 reverts with \<open>InvalidBatch\<close>, which is not \<open>UnknownRequest\<close>.
\<close>

theorem myCallback_unknown_request_counterexample:
  "decryptionContexts (constructor 1) 99 = None
   \<and> myCallback demo_env (constructor 1) 99 demo_payload [1] = Inl InvalidBatch
   \<and> \<not> fails_with (myCallback demo_env (constructor 1) 99 demo_payload [1])
         Spec_UnknownRequest"
  by (simp add: constructor_def op_defs fails_with_def)

section \<open>The pause flag\<close>

lemma myCallback_ignores_paused:
  "myCallback env (s\<lparr>paused := q\<rparr>) r c p =
     map_sum id (\<lambda>s'. s'\<lparr>paused := q\<rparr>) (myCallback env s r c p)"
  by (simp add: myCallback_def context_at_def batch_cts_def split: sum.splits)

text \<open>
  C8 (amended). While \<open>paused\<close> is true, \<open>openBatch\<close>, \<open>submitPayment\<close> and
  \<open>closeBatch\<close> revert with \<open>Paused\<close> for an authorized provider and with
  \<open>NotProvider\<close> for any other caller (\<open>onlyProvider\<close> is checked first),
  \<open>requestBatchTotalDecryption\<close> reverts with \<open>Paused\<close> for every caller, and none of
  them changes the state. \<open>myCallback\<close> has no \<open>whenNotPaused\<close> modifier: it does
  exactly what it does when the system is not paused. The read accessors do not depend
  on the flag.
\<close>

theorem whenNotPaused_blocks:
  assumes "paused s"
  shows "(providers s a \<longrightarrow>
            openBatch s a t = Inl Paused \<and> submitPayment s a t v = Inl Paused
          \<and> closeBatch s a = Inl Paused)
       \<and> (\<not> providers s a \<longrightarrow>
            openBatch s a t = Inl NotProvider \<and> submitPayment s a t v = Inl NotProvider
          \<and> closeBatch s a = Inl NotProvider)
       \<and> requestBatchTotalDecryption env s a t b r = Inl Paused
       \<and> exec env s (a, t, OpenBatch) = s
       \<and> exec env s (a, t, SubmitPayment v) = s
       \<and> exec env s (a, t, CloseBatch) = s
       \<and> exec env s (a, t, RequestBatchTotalDecryption b r) = s
       \<and> myCallback env s r c p =
           map_sum id (\<lambda>s'. s'\<lparr>paused := True\<rparr>) (myCallback env (s\<lparr>paused := False\<rparr>) r c p)
       \<and> get_batches s i = get_batches (s\<lparr>paused := False\<rparr>) i
       \<and> get_payments s i = get_payments (s\<lparr>paused := False\<rparr>) i"
proof -
  have o: "openBatch s a t = Inl (if providers s a then Paused else NotProvider)"
    using assms by (simp add: openBatch_def)
  have u: "submitPayment s a t v = Inl (if providers s a then Paused else NotProvider)"
    using assms by (simp add: submitPayment_def)
  have cl: "closeBatch s a = Inl (if providers s a then Paused else NotProvider)"
    using assms by (simp add: closeBatch_def)
  have rq: "requestBatchTotalDecryption env s a t b r = Inl Paused"
    using assms by (simp add: requestBatchTotalDecryption_def)
  from assms have "s = (s\<lparr>paused := False\<rparr>)\<lparr>paused := True\<rparr>" by simp
  then have "myCallback env s r c p =
      myCallback env ((s\<lparr>paused := False\<rparr>)\<lparr>paused := True\<rparr>) r c p"
    by simp
  then have cb: "myCallback env s r c p =
      map_sum id (\<lambda>s'. s'\<lparr>paused := True\<rparr>) (myCallback env (s\<lparr>paused := False\<rparr>) r c p)"
    by (simp only: myCallback_ignores_paused)
  have g: "get_batches s i = get_batches (s\<lparr>paused := False\<rparr>) i"
    "get_payments s i = get_payments (s\<lparr>paused := False\<rparr>) i"
    by (simp_all add: get_batches_def get_payments_def)
  from o u cl rq cb g show ?thesis by simp
qed

text \<open>
  The owner pauses while request 7 is pending: the four calls of provider 2 revert with
  \<open>Paused\<close>, and the getter of batch 0 still answers.
\<close>

theorem whenNotPaused_blocks_witness:
  "paused demo_requested_paused
   \<and> openBatch demo_requested_paused 2 600 = Inl Paused
   \<and> submitPayment demo_requested_paused 2 600 7 = Inl Paused
   \<and> closeBatch demo_requested_paused 2 = Inl Paused
   \<and> requestBatchTotalDecryption demo_env demo_requested_paused 2 600 0 8 = Inl Paused
   \<and> exec demo_env demo_requested_paused (2, 600, SubmitPayment 7) = demo_requested_paused
   \<and> get_batches demo_requested_paused 0 =
       Inr \<lparr>id_batch = 0, totalEncryptedAmount = Euint32 25, closed = True\<rparr>"
proof -
  have h: "paused demo_requested_paused"
    by (simp add: demo_requested_paused_def demo_defs op_defs)
  have p: "providers demo_requested_paused 2"
    by (simp add: demo_requested_paused_def demo_defs op_defs)
  have g: "get_batches (demo_requested_paused\<lparr>paused := False\<rparr>) 0 =
      Inr \<lparr>id_batch = 0, totalEncryptedAmount = Euint32 25, closed = True\<rparr>"
    by (simp add: get_batches_def demo_requested_paused_def demo_defs op_defs)
  from whenNotPaused_blocks [OF h, of 2 600 7 demo_env 0 8 demo_payload "[1]" 0] p g h
  show ?thesis by simp
qed

text \<open>
  C8 as stated fails: on the same paused state the callback for request 7 succeeds and
  emits \<open>DecryptionCompleted(7, 0, 25)\<close>, and \<open>openBatch\<close> by address 5, which is not
  a provider, reverts with \<open>NotProvider\<close> rather than \<open>Paused\<close>.
\<close>

theorem whenNotPaused_blocks_counterexample:
  "paused demo_requested_paused
   \<and> \<not> fails_with (myCallback demo_env demo_requested_paused 7 demo_payload [1])
         Spec_SystemPaused
   \<and> DecryptionCompleted 7 0 25 \<notin> set (events demo_requested_paused)
   \<and> DecryptionCompleted 7 0 25 \<in>
       set (events (exec demo_env demo_requested_paused (9, 600, MyCallback 7 demo_payload [1])))
   \<and> openBatch demo_requested_paused 5 600 = Inl NotProvider
   \<and> \<not> fails_with (openBatch demo_requested_paused 5 600) Spec_SystemPaused"
  by (simp add: demo_requested_paused_def demo_defs op_defs fails_with_def)

section \<open>Open batches\<close>

lemma exec_butlast_closed:
  assumes "list_all closed (butlast (batches s))"
    and "snd (snd tx) = OpenBatch \<longrightarrow> batches s = [] \<or> closed (last (batches s))"
  shows "list_all closed (butlast (batches (exec env s tx)))"
proof -
  from exec_batches [of env s tx] consider
      (same) "batches (exec env s tx) = batches s"
    | (push) b where "batches (exec env s tx) = batches s @ [b]" "snd (snd tx) = OpenBatch"
    | (upd) b where "batches (exec env s tx) = butlast (batches s) @ [b]"
    by blast
  then show ?thesis
  proof cases
    case same
    with assms(1) show ?thesis by simp
  next
    case push
    with assms(2) have "batches s = [] \<or> closed (last (batches s))" by simp
    then have "list_all closed (batches s)"
    proof
      assume "batches s = []"
      then show ?thesis by simp
    next
      assume l: "closed (last (batches s))"
      show ?thesis
      proof (cases "batches s" rule: rev_cases)
        case Nil
        then show ?thesis by simp
      next
        case (snoc ys y)
        with assms(1) l show ?thesis by simp
      qed
    qed
    with push(1) show ?thesis by simp
  next
    case upd
    with assms(1) show ?thesis by simp
  qed
qed

lemma run_butlast_closed:
  assumes "list_all closed (butlast (batches s))" and "opens_after_close env s txs"
  shows "list_all closed (butlast (batches (run env s txs)))"
  using assms
proof (induction txs arbitrary: s)
  case Nil
  then show ?case by simp
next
  case (Cons tx txs)
  obtain a t c where tx: "tx = (a, t, c)" by (cases tx) auto
  from Cons.prems(2) have
    g: "snd (snd tx) = OpenBatch \<longrightarrow> batches s = [] \<or> closed (last (batches s))"
    and rest: "opens_after_close env (exec env s tx) txs"
    by (simp_all add: tx)
  from Cons.IH [OF exec_butlast_closed [OF Cons.prems(1) g] rest] show ?case by simp
qed

lemma butlast_closed_open_batches:
  assumes "list_all closed (butlast (batches s))"
  shows "length (open_batches s) \<le> 1"
proof (cases "batches s" rule: rev_cases)
  case Nil
  then show ?thesis by (simp add: open_batches_def)
next
  case (snoc ys y)
  with assms have "filter (\<lambda>b. \<not> closed b) ys = []"
    by (simp add: list_all_iff filter_empty_conv)
  with snoc show ?thesis by (simp add: open_batches_def)
qed

text \<open>
  C6 (amended). In every state reached from the initial state by a sequence of
  operations in which \<open>openBatch\<close> is only called when no batch exists or the latest
  batch is closed, at most one batch has \<open>closed = false\<close>. (\<open>openBatch\<close> itself makes
  no such check: called twice in a row it leaves two open batches.)
\<close>

theorem at_most_one_open_batch:
  assumes "opens_after_close env (constructor deployer) txs"
  shows "length (open_batches (run env (constructor deployer) txs)) \<le> 1"
proof -
  have "list_all closed (butlast (batches (constructor deployer)))"
    by (simp add: constructor_def)
  from butlast_closed_open_batches [OF run_butlast_closed [OF this assms]] show ?thesis .
qed

text \<open>
  A sequence that opens the second batch only after closing the first leaves one open
  batch.
\<close>

theorem at_most_one_open_batch_witness:
  "opens_after_close demo_env (constructor 1)
     [(1, 10, AddProvider 2), (2, 100, OpenBatch), (2, 200, SubmitPayment 10),
      (2, 300, CloseBatch), (2, 400, OpenBatch)]
   \<and> length (open_batches (run demo_env (constructor 1)
     [(1, 10, AddProvider 2), (2, 100, OpenBatch), (2, 200, SubmitPayment 10),
      (2, 300, CloseBatch), (2, 400, OpenBatch)])) \<le> 1"
proof -
  let ?txs = "[(1, 10, AddProvider 2), (2, 100, OpenBatch), (2, 200, SubmitPayment 10),
      (2, 300, CloseBatch), (2, 400, OpenBatch)] :: tx list"
  have h: "opens_after_close demo_env (constructor 1) ?txs"
    by (simp add: constructor_def op_defs)
  from at_most_one_open_batch [OF h] h show ?thesis by (simp del: run.simps)
qed

text \<open>
  C6 as stated fails: the owner registers provider 2, who calls \<open>openBatch\<close> at 100 and
  again at 200; both succeed and both batches are open.
\<close>

theorem at_most_one_open_batch_counterexample:
  "length (open_batches demo_two_open) = 2 \<and> \<not> length (open_batches demo_two_open) \<le> 1"
  by (simp add: demo_two_open_def open_batches_def constructor_def op_defs)

section \<open>Batches left open by a further \<open>openBatch\<close>\<close>










end
